theory Spec2Isabelle
  imports Main
begin

section \<open>Envelope encryption: the secrets service (package secrets)\<close>

text \<open>
  A shallow embedding of the Go type \<open>Secrets\<close> with its methods \<open>Init\<close>,
  \<open>newRandomDataKey\<close>, \<open>Encrypt\<close>, \<open>Decrypt\<close> and \<open>dataKey\<close>.
  A Go \<open>[]byte\<close> and a Go \<open>string\<close> are both sequences of bytes and the conversions
  between them copy the bytes, so both are \<open>char list\<close> here (a HOL \<open>char\<close> is
  one byte).
\<close>

type_synonym bytes = string

subsection \<open>Errors and panics\<close>

text \<open>
  The error values the methods can return.  \<open>ErrNoKeyInPayload\<close> and \<open>ErrNoProvider\<close>
  are built by \<open>fmt.Errorf\<close> in \<open>Decrypt\<close> and \<open>dataKey\<close>;
  \<open>ErrDataKeyNotFound\<close> is \<open>models.ErrDataKeyNotFound\<close>; \<open>CorruptInputError\<close> is the
  error of \<open>encoding/base64\<close> (its offset is left out); \<open>External\<close> stands for any
  other error of the store, the cipher, a provider or the random source, and \<open>Wrapped\<close>
  for an error that wraps another one.  A run-time panic unwinds through every caller
  as a returned error does through \<open>if err != nil { return err }\<close>, so it is the
  outcome \<open>Inl (Panic msg)\<close>.
\<close>

datatype error =
    ErrDataKeyNotFound
  | ErrNoKeyInPayload
  | ErrNoProvider string
  | CorruptInputError
  | External string
  | Wrapped string error
  | Panic string

text \<open>\<open>errors.Is(err, target)\<close>: \<open>err\<close> is the target or wraps it.\<close>

fun errors_Is :: "error \<Rightarrow> error \<Rightarrow> bool" where
  "errors_Is (Wrapped msg e) target = (Wrapped msg e = target \<or> errors_Is e target)"
| "errors_Is e target = (e = target)"

subsection \<open>Byte slices\<close>

text \<open>\<open>make([]byte, n)\<close>: \<open>n\<close> zero bytes.\<close>

definition make_bytes :: "nat \<Rightarrow> bytes" where
  "make_bytes n = replicate n (CHR 0x00)"

text \<open>
  The builtin \<open>copy(dst, src)\<close>: the first \<open>min (len dst) (len src)\<close> bytes of \<open>dst\<close>
  are overwritten; the result is the new content of \<open>dst\<close>.
\<close>

definition copy :: "bytes \<Rightarrow> bytes \<Rightarrow> bytes" where
  "copy dst src = take (length dst) src @ drop (length src) dst"

text \<open>
  \<open>bytes.Index(s, sep)\<close>: the index of the first instance of \<open>sep\<close> in \<open>s\<close>, or
  \<open>-1\<close>.  \<open>Index_from i\<close> is the search in a suffix that starts at offset \<open>i\<close>.
\<close>

fun Index_from :: "nat \<Rightarrow> bytes \<Rightarrow> bytes \<Rightarrow> int" where
  "Index_from i [] sep = (if sep = [] then int i else - 1)"
| "Index_from i (c # s) sep =
     (if take (length sep) (c # s) = sep then int i else Index_from (Suc i) s sep)"

definition bytes_Index :: "bytes \<Rightarrow> bytes \<Rightarrow> int" where
  "bytes_Index s sep = Index_from 0 s sep"

subsection \<open>\<open>base64.RawStdEncoding\<close>\<close>

text \<open>
  The standard alphabet without padding, as \<open>encoding/base64\<close> implements it:
  \<open>Encode\<close> takes three bytes to four characters and a rest of one or two bytes to two
  or three characters; \<open>Decode\<close> reads quanta of four characters, skips \<open>\r\<close> and
  \<open>\n\<close>, rejects every other character outside the alphabet and a last quantum of
  one character, and (not being strict) ignores the unused low bits of a last quantum.
\<close>

definition encodeStd :: string where
  "encodeStd = ''ABCDEFGHIJKLMNOPQRSTUVWXYZabcdefghijklmnopqrstuvwxyz0123456789+/''"

definition EncodedLen :: "nat \<Rightarrow> nat" where
  "EncodedLen n = n div 3 * 4 + (n mod 3 * 8 + 5) div 6"

definition DecodedLen :: "nat \<Rightarrow> nat" where
  "DecodedLen n = n * 6 div 8"

definition sextet :: "nat \<Rightarrow> nat \<Rightarrow> char" where
  "sextet val shift = encodeStd ! (val div 2 ^ shift mod 64)"

fun b64_Encode :: "bytes \<Rightarrow> bytes" where
  "b64_Encode (x # y # z # src) =
     (let val = of_char x * 65536 + of_char y * 256 + of_char z
      in sextet val 18 # sextet val 12 # sextet val 6 # sextet val 0 # b64_Encode src)"
| "b64_Encode [x, y] =
     (let val = of_char x * 65536 + of_char y * 256
      in [sextet val 18, sextet val 12, sextet val 6])"
| "b64_Encode [x] =
     (let val = of_char x * 65536
      in [sextet val 18, sextet val 12])"
| "b64_Encode [] = []"

text \<open>
  \<open>decodeMap\<close>: the position of a character in the alphabet, \<open>0xff\<close> for a character
  outside it.
\<close>

fun index_in :: "nat \<Rightarrow> string \<Rightarrow> char \<Rightarrow> nat" where
  "index_in i [] c = 255"
| "index_in i (a # as) c = (if a = c then i else index_in (Suc i) as c)"

definition decodeMap :: "char \<Rightarrow> nat" where
  "decodeMap c = index_in 0 encodeStd c"

text \<open>
  The end of \<open>decodeQuantum\<close>: \<open>dbuf\<close> holds \<open>dlen\<close> sextets (the rest of the four
  is zero), \<open>dlen - 1\<close> bytes come out.
\<close>

definition quantum_bytes :: "nat list \<Rightarrow> bytes" where
  "quantum_bytes dbuf =
     (let d = dbuf @ replicate (4 - length dbuf) 0;
          val = d ! 0 * 262144 + d ! 1 * 4096 + d ! 2 * 64 + d ! 3
      in take (length dbuf - 1) [char_of (val div 65536), char_of (val div 256), char_of val])"

fun b64_scan :: "nat list \<Rightarrow> bytes \<Rightarrow> error + bytes" where
  "b64_scan dbuf [] =
     (if dbuf = [] then Inr []
      else if length dbuf = 1 then Inl CorruptInputError
      else Inr (quantum_bytes dbuf))"
| "b64_scan dbuf (c # src) =
     (let out = decodeMap c in
      if out \<noteq> 255 then
        (if length dbuf = 3 then
           (case b64_scan [] src of
              Inl err \<Rightarrow> Inl err
            | Inr rest \<Rightarrow> Inr (quantum_bytes (dbuf @ [out]) @ rest))
         else b64_scan (dbuf @ [out]) src)
      else if c = CHR 0x0A \<or> c = CHR 0x0D then b64_scan dbuf src
      else Inl CorruptInputError)"

definition b64_Decode :: "bytes \<Rightarrow> error + bytes" where
  "b64_Decode src = b64_scan [] src"

subsection \<open>Time\<close>

text \<open>
  A \<open>time.Time\<close> is the number of nanoseconds since the zero time; \<open>IsZero\<close>,
  \<open>Before\<close> and \<open>Add\<close> are what they are on that number.
\<close>

type_synonym time = int

definition IsZero :: "time \<Rightarrow> bool" where
  "IsZero t = (t = 0)"

definition Before :: "time \<Rightarrow> time \<Rightarrow> bool" where
  "Before t u = (t < u)"

definition Add :: "time \<Rightarrow> int \<Rightarrow> time" where
  "Add t d = t + d"

definition Minute :: int where
  "Minute = 60 * 1000000000"

subsection \<open>Go maps\<close>

text \<open>
  A map value is \<open>nil\<close> until \<open>make\<close> or a literal allocates it.  Reading a nil
  map finds nothing and \<open>delete\<close> on it does nothing, but assigning to an entry of
  a nil map panics.
\<close>

datatype 'v gomap = nil_map | alloc_map "string \<rightharpoonup> 'v"

fun map_index :: "'v gomap \<Rightarrow> string \<Rightarrow> 'v option" where
  "map_index nil_map k = None"
| "map_index (alloc_map m) k = m k"

fun map_delete :: "'v gomap \<Rightarrow> string \<Rightarrow> 'v gomap" where
  "map_delete nil_map k = nil_map"
| "map_delete (alloc_map m) k = alloc_map (m(k := None))"

fun map_assign :: "'v gomap \<Rightarrow> string \<Rightarrow> 'v \<Rightarrow> error + 'v gomap" where
  "map_assign nil_map k v = Inl (Panic ''assignment to entry in nil map'')"
| "map_assign (alloc_map m) k v = Inr (alloc_map (m(k \<mapsto> v)))"

subsection \<open>The data model\<close>

text \<open>\<open>models.DataKey\<close>, the record the store keeps for a data key.\<close>

record DataKey =
  Active :: bool
  Name :: string
  Provider :: string
  EncryptedData :: bytes

record dataKeyCacheItem =
  expiry :: time
  dataKey_item :: bytes

text \<open>
  The package functions \<open>encrypt(payload, key)\<close> and \<open>decrypt(payload, key)\<close> (the
  cipher) and \<open>crypto/rand.Read\<close> are parameters of the model: \<open>rand_Read n\<close> is
  what the random source gives when asked for \<open>n\<close> bytes.
\<close>

record externals =
  encrypt :: "bytes \<Rightarrow> bytes \<Rightarrow> error + bytes"
  decrypt :: "bytes \<Rightarrow> bytes \<Rightarrow> error + bytes"
  rand_Read :: "nat \<Rightarrow> error + bytes"

text \<open>
  The interface \<open>Provider\<close> with its implementations: the built-in \<open>secretKey\<close>,
  which \<open>Init\<close> registers under the id \<open>""\<close>, and any other implementation, given
  by its two methods.
\<close>

datatype Provider =
    secretKey
  | Plugin "bytes \<Rightarrow> error + bytes" "bytes \<Rightarrow> error + bytes"

text \<open>
  Modelled from the spec: the methods of the type \<open>secretKey\<close>, which is declared in
  a file of the package that is not at hand.  The built-in provider's \<open>Encrypt\<close> and
  \<open>Decrypt\<close> both delegate to the configured secret (\<open>setting.SecretKey\<close>, read
  through the closure \<open>key\<close> when the method runs).
\<close>

fun provider_Encrypt :: "externals \<Rightarrow> bytes \<Rightarrow> Provider \<Rightarrow> bytes \<Rightarrow> error + bytes" where
  "provider_Encrypt X secret secretKey blob = encrypt X blob secret"
| "provider_Encrypt X secret (Plugin enc dec) blob = enc blob"

text \<open>
  Modelled from the spec: \<open>Decrypt\<close> of a provider; for the type \<open>secretKey\<close>
  (declared in a file of the package that is not at hand) it delegates to the configured
  secret, as its \<open>Encrypt\<close> does.
\<close>

fun provider_Decrypt :: "externals \<Rightarrow> bytes \<Rightarrow> Provider \<Rightarrow> bytes \<Rightarrow> error + bytes" where
  "provider_Decrypt X secret secretKey blob = decrypt X blob secret"
| "provider_Decrypt X secret (Plugin enc dec) blob = dec blob"

text \<open>
  Modelled from the spec: the key store (\<open>sqlstore.SQLStore\<close>, whose code is not at
  hand).  It holds at most one record per name; \<open>getFault\<close> and \<open>createFault\<close> say
  which calls the store fails (a deadline that passes, a connection that is down) and
  with which error.
\<close>

record sqlstore =
  dataKeys :: "string \<rightharpoonup> DataKey"
  getFault :: "string \<Rightarrow> error option"
  createFault :: "DataKey \<Rightarrow> error option"

text \<open>
  Modelled from the spec: \<open>GetDataKey(ctx, name)\<close> of the store, which returns the
  record of that name and fails with the distinguished \<open>ErrDataKeyNotFound\<close> when the
  store has none; it only reads.
\<close>

definition GetDataKey :: "sqlstore \<Rightarrow> string \<Rightarrow> error + DataKey" where
  "GetDataKey st name =
     (case getFault st name of
        Some err \<Rightarrow> Inl err
      | None \<Rightarrow>
          (case dataKeys st name of
             None \<Rightarrow> Inl ErrDataKeyNotFound
           | Some dk \<Rightarrow> Inr dk))"

text \<open>
  Modelled from the spec: \<open>CreateDataKey(ctx, dataKey)\<close> of the store, which persists
  the record under its name or fails and persists nothing.
\<close>

definition CreateDataKey :: "sqlstore \<Rightarrow> DataKey \<Rightarrow> error option \<times> sqlstore" where
  "CreateDataKey st dk =
     (case createFault st dk of
        Some err \<Rightarrow> (Some err, st)
      | None \<Rightarrow> (None, st\<lparr>dataKeys := (dataKeys st)(Name dk \<mapsto> dk)\<rparr>))"

text \<open>The calls to the store and to a provider, in the order they are made.\<close>

datatype call =
    GetDataKeyCall string
  | CreateDataKeyCall DataKey
  | ProviderDecryptCall string bytes

fun is_store_write :: "call \<Rightarrow> bool" where
  "is_store_write (CreateDataKeyCall dk) = True"
| "is_store_write c = False"

fun is_store_call :: "call \<Rightarrow> bool" where
  "is_store_call (ProviderDecryptCall p blob) = False"
| "is_store_call c = True"

text \<open>
  The struct \<open>Secrets\<close> (its field \<open>bus\<close> is never used), extended by what the
  methods read and write outside it: the setting \<open>SecretKey\<close>, the hooks
  \<open>util.Encrypt\<close> and \<open>util.Decrypt\<close> (\<open>util_hooked\<close> holds once \<open>Init\<close> has
  pointed them to this service), the clock \<open>time.Now()\<close> reads, and the log of the
  calls made so far.  The map \<open>providers\<close> is only ever read after \<open>Init\<close> has
  assigned it, so it is a plain map; \<open>dataKeyCache\<close> is written entry by entry and
  is a Go map.
\<close>

record Secrets =
  store :: sqlstore
  defaultEncryptionKey :: string
  defaultProvider :: string
  providers :: "string \<rightharpoonup> Provider"
  dataKeyCache :: "dataKeyCacheItem gomap"

record process = Secrets +
  SecretKey :: string
  util_hooked :: bool
  now :: time
  calls :: "call list"

subsection \<open>The methods\<close>

text \<open>
  \<open>dataKey\<close> after the cache has been consulted: fetch the record from the store,
  decrypt it through its provider, cache the result for 15 minutes.
\<close>

definition dataKey_fetch :: "externals \<Rightarrow> string \<Rightarrow> process \<Rightarrow> (error + bytes) \<times> process" where
  "dataKey_fetch X key s =
     (let s1 = s\<lparr>calls := calls s @ [GetDataKeyCall key]\<rparr> in
      case GetDataKey (store s1) key of
        Inl err \<Rightarrow> (Inl err, s1)
      | Inr dk \<Rightarrow>
          (case providers s1 (Provider dk) of
             None \<Rightarrow> (Inl (ErrNoProvider (Provider dk)), s1)
           | Some provider \<Rightarrow>
               (let s2 = s1\<lparr>calls := calls s1 @
                           [ProviderDecryptCall (Provider dk) (EncryptedData dk)]\<rparr> in
                case provider_Decrypt X (SecretKey s2) provider (EncryptedData dk) of
                  Inl err \<Rightarrow> (Inl err, s2)
                | Inr decrypted \<Rightarrow>
                    (case map_assign (dataKeyCache s2) key
                            \<lparr>expiry = Add (now s2) (15 * Minute), dataKey_item = decrypted\<rparr> of
                       Inl p \<Rightarrow> (Inl p, s2)
                     | Inr cache \<Rightarrow> (Inr decrypted, s2\<lparr>dataKeyCache := cache\<rparr>)))))"

definition dataKey :: "externals \<Rightarrow> string \<Rightarrow> process \<Rightarrow> (error + bytes) \<times> process" where
  "dataKey X key s =
     (if key = [] then (Inr (SecretKey s), s)
      else
        (case map_index (dataKeyCache s) key of
           Some item \<Rightarrow>
             if Before (expiry item) (now s) \<and> \<not> IsZero (expiry item)
             then dataKey_fetch X key (s\<lparr>dataKeyCache := map_delete (dataKeyCache s) key\<rparr>)
             else (Inr (dataKey_item item), s)
         | None \<Rightarrow> dataKey_fetch X key s))"

definition Encrypt :: "externals \<Rightarrow> bytes \<Rightarrow> process \<Rightarrow> (error + bytes) \<times> process" where
  "Encrypt X payload s =
     (let key = defaultEncryptionKey s in
      case dataKey X key s of
        (Inl err, s1) \<Rightarrow> (Inl err, s1)
      | (Inr dk, s1) \<Rightarrow>
          (case encrypt X payload dk of
             Inl err \<Rightarrow> (Inl err, s1)
           | Inr encrypted \<Rightarrow>
               (let prefix0 = make_bytes (EncodedLen (length key) + 2);
                    prefix1 = take 1 prefix0 @ copy (drop 1 prefix0) (b64_Encode key);
                    prefix2 = prefix1[0 := CHR ''#''];
                    prefix3 = prefix2[length prefix2 - 1 := CHR ''#''];
                    blob0 = make_bytes (length prefix3 + length encrypted);
                    blob1 = copy blob0 prefix3;
                    blob2 = take (length prefix3) blob1 @
                            copy (drop (length prefix3) blob1) encrypted
                in (Inr blob2, s1))))"

text \<open>
  \<open>Decrypt\<close> on a payload that starts with \<open>#\<close>; \<open>payload1\<close> is the payload
  after that first byte.  \<open>string(key)\<close> is the whole buffer \<open>key\<close>, whatever
  \<open>Decode\<close> has written of it.
\<close>

definition Decrypt_envelope :: "externals \<Rightarrow> bytes \<Rightarrow> process \<Rightarrow> (error + bytes) \<times> process" where
  "Decrypt_envelope X payload1 s =
     (let endOfKey = bytes_Index payload1 [CHR ''#'']
      in if endOfKey = - 1 then (Inl ErrNoKeyInPayload, s)
         else
           (let b64Key = take (nat endOfKey) payload1;
                payload2 = drop (nat endOfKey + 1) payload1;
                key0 = make_bytes (DecodedLen (length b64Key))
            in case b64_Decode b64Key of
                 Inl err \<Rightarrow> (Inl err, s)
               | Inr decoded \<Rightarrow>
                   (case dataKey X (copy key0 decoded) s of
                      (Inl err, s1) \<Rightarrow> (Inl err, s1)
                    | (Inr dk, s1) \<Rightarrow> (decrypt X payload2 dk, s1))))"

definition Decrypt :: "externals \<Rightarrow> bytes \<Rightarrow> process \<Rightarrow> (error + bytes) \<times> process" where
  "Decrypt X payload s =
     (if length payload = 0 then (Inr [], s)
      else if payload ! 0 \<noteq> CHR ''#'' then (decrypt X payload (SecretKey s), s)
      else Decrypt_envelope X (drop 1 payload) s)"

text \<open>
  \<open>newRandomDataKey\<close> returns an \<open>error\<close>: \<open>None\<close> is \<open>nil\<close>.  The error of
  \<open>CreateDataKey\<close> is assigned to \<open>err\<close> and the method then returns \<open>nil\<close>.
\<close>

definition newRandomDataKey :: "externals \<Rightarrow> string \<Rightarrow> process \<Rightarrow> error option \<times> process" where
  "newRandomDataKey X base_key s =
     (case rand_Read X 16 of
        Inl err \<Rightarrow> (Some err, s)
      | Inr r \<Rightarrow>
          (let b = copy (make_bytes 16) r in
           case Encrypt X b s of
             (Inl err, s1) \<Rightarrow> (Some err, s1)
           | (Inr encrypted, s1) \<Rightarrow>
               (let dk = \<lparr>Active = True, Name = base_key, Provider = defaultProvider s1,
                          EncryptedData = encrypted\<rparr>;
                    s2 = s1\<lparr>calls := calls s1 @ [CreateDataKeyCall dk]\<rparr>;
                    (err, st) = CreateDataKey (store s2) dk
                in (None, s2\<lparr>store := st\<rparr>))))"

definition Init :: "externals \<Rightarrow> process \<Rightarrow> error option \<times> process" where
  "Init X s =
     (let s0 = s\<lparr>providers := [[] \<mapsto> secretKey]\<rparr>;
          base_key = ''root'';
          s1 = s0\<lparr>calls := calls s0 @ [GetDataKeyCall base_key]\<rparr>
      in case GetDataKey (store s1) base_key of
           Inl err \<Rightarrow>
             if errors_Is err ErrDataKeyNotFound then
               (case newRandomDataKey X base_key s1 of
                  (Some err1, s2) \<Rightarrow> (Some err1, s2)
                | (None, s2) \<Rightarrow> (None, s2\<lparr>util_hooked := True\<rparr>))
             else (Some err, s1)
         | Inr dk \<Rightarrow> (None, s1\<lparr>util_hooked := True\<rparr>))"

subsection \<open>A test double\<close>

text \<open>
  A cipher that puts the key in front of the payload and checks and strips it again, a
  random source that never fails, a store without records that serves every call, and
  the process as it is when the zero value of \<open>Secrets\<close> has just been injected:
  every map is \<open>nil\<close>, every string empty.
\<close>

definition toy_encrypt :: "bytes \<Rightarrow> bytes \<Rightarrow> error + bytes" where
  "toy_encrypt payload key = Inr (key @ payload)"

definition toy_decrypt :: "bytes \<Rightarrow> bytes \<Rightarrow> error + bytes" where
  "toy_decrypt payload key =
     (if take (length key) payload = key then Inr (drop (length key) payload)
      else Inl (External ''cipher: message authentication failed''))"

definition toy :: externals where
  "toy = \<lparr>encrypt = toy_encrypt, decrypt = toy_decrypt,
           rand_Read = (\<lambda>n. Inr (replicate n (CHR ''r'')))\<rparr>"

definition empty_store :: sqlstore where
  "empty_store = \<lparr>dataKeys = Map.empty, getFault = (\<lambda>name. None),
                   createFault = (\<lambda>dk. None)\<rparr>"

definition zero_process :: process where
  "zero_process =
     \<lparr>store = empty_store, defaultEncryptionKey = [], defaultProvider = [],
      providers = Map.empty, dataKeyCache = nil_map,
      SecretKey = ''SW2YcwTIb9zpOOhoPsMm'', util_hooked = False, now = 1000, calls = []\<rparr>"

text \<open>
  A second provider \<open>kms\<close>, a store with one record \<open>k1\<close> that names it, and a
  process that encrypts under \<open>k1\<close> and has an allocated, empty cache.
\<close>

definition kms :: Provider where
  "kms = Plugin (\<lambda>blob. Inr (rev blob)) (\<lambda>blob. Inr (rev blob))"

definition keyed_store :: sqlstore where
  "keyed_store =
     empty_store\<lparr>dataKeys := [''k1'' \<mapsto>
       \<lparr>Active = True, Name = ''k1'', Provider = ''kms'', EncryptedData = ''yek-atad''\<rparr>]\<rparr>"

definition keyed_process :: process where
  "keyed_process =
     zero_process\<lparr>store := keyed_store, defaultEncryptionKey := ''k1'',
       providers := [[] \<mapsto> secretKey, ''kms'' \<mapsto> kms],
       dataKeyCache := alloc_map Map.empty\<rparr>"

text \<open>
  A store whose record \<open>k1\<close> names a provider \<open>vault\<close> that no process registers,
  and a store whose record \<open>k1\<close> is sealed by the built-in provider under the
  configured secret; the process after \<open>Init\<close> has run on the zero value of
  \<open>Secrets\<close> with each of these stores; a store that refuses every insert and a store
  that answers no lookup in time; and the process \<open>keyed_process\<close> after it has
  resolved \<open>k1\<close> once.
\<close>

definition rotated_store :: sqlstore where
  "rotated_store =
     empty_store\<lparr>dataKeys := [''k1'' \<mapsto>
       \<lparr>Active = True, Name = ''k1'', Provider = ''vault'', EncryptedData = ''yek-atad''\<rparr>]\<rparr>"

definition sealed_store :: sqlstore where
  "sealed_store =
     empty_store\<lparr>dataKeys := [''k1'' \<mapsto>
       \<lparr>Active = True, Name = ''k1'', Provider = [],
          EncryptedData = ''SW2YcwTIb9zpOOhoPsMmdata-key''\<rparr>]\<rparr>"

definition vault_process :: process where
  "vault_process = snd (Init toy (zero_process\<lparr>store := rotated_store\<rparr>))"

definition sealed_process :: process where
  "sealed_process = snd (Init toy (zero_process\<lparr>store := sealed_store\<rparr>))"

definition locked_store :: sqlstore where
  "locked_store = empty_store\<lparr>createFault := (\<lambda>dk. Some (External ''database is locked''))\<rparr>"

definition down_store :: sqlstore where
  "down_store = empty_store\<lparr>getFault := (\<lambda>name. Some (External ''context deadline exceeded''))\<rparr>"

definition warm_process :: process where
  "warm_process = snd (dataKey toy ''k1'' keyed_process)"

section \<open>Properties\<close>

subsection \<open>Base64 without padding decodes what it encodes\<close>

lemma length_encodeStd: "length encodeStd = 64"
  by (simp add: encodeStd_def)

lemma distinct_encodeStd: "distinct encodeStd"
  by (simp add: encodeStd_def)

lemma hash_notin_encodeStd: "CHR ''#'' \<notin> set encodeStd"
  by (simp add: encodeStd_def)

lemma index_in_nth:
  "distinct xs \<Longrightarrow> i < length xs \<Longrightarrow> index_in k xs (xs ! i) = k + i"
proof (induction xs arbitrary: i k)
  case Nil
  then show ?case by simp
next
  case (Cons a xs)
  show ?case
  proof (cases i)
    case 0
    then show ?thesis by simp
  next
    case (Suc j)
    with Cons.prems have "a \<noteq> xs ! j" "distinct xs" "j < length xs"
      by auto
    with Cons.IH [of j "Suc k"] Suc show ?thesis by simp
  qed
qed

lemma decodeMap_encodeStd: "i < 64 \<Longrightarrow> decodeMap (encodeStd ! i) = i"
  using index_in_nth [OF distinct_encodeStd, of i 0]
  by (simp add: decodeMap_def length_encodeStd)

lemma decodeMap_sextet: "decodeMap (sextet val sh) = val div 2 ^ sh mod 64"
  by (simp add: sextet_def decodeMap_encodeStd)

lemma sextet_in_alphabet: "sextet val sh \<in> set encodeStd"
  by (simp add: sextet_def length_encodeStd)

lemma set_b64_Encode: "set (b64_Encode src) \<subseteq> set encodeStd"
  by (induction src rule: b64_Encode.induct) (simp_all add: Let_def sextet_in_alphabet)

lemma EncodedLen_step: "EncodedLen (Suc (Suc (Suc n))) = 4 + EncodedLen n"
proof -
  have "Suc (Suc (Suc n)) = n + 3"
    by simp
  then show ?thesis
    by (simp only: EncodedLen_def div_add_self2 mod_add_self2) simp
qed

lemma EncodedLen_small: "EncodedLen 0 = 0" "EncodedLen (Suc 0) = 2" "EncodedLen (Suc (Suc 0)) = 3"
  by (simp_all add: EncodedLen_def)

lemma length_b64_Encode: "length (b64_Encode src) = EncodedLen (length src)"
proof (induction src rule: b64_Encode.induct)
  case (1 x y z src)
  then show ?case
    by (simp add: Let_def EncodedLen_step del: One_nat_def)
qed (simp_all add: Let_def EncodedLen_small)

lemma DecodedLen_EncodedLen: "DecodedLen (EncodedLen n) = n"
proof (induction n rule: less_induct)
  case (less n)
  consider "n = 0" | "n = Suc 0" | "n = Suc (Suc 0)" | m where "n = Suc (Suc (Suc m))"
    by (metis not0_implies_Suc)
  then show ?case
  proof cases
    case 4
    have "DecodedLen (4 + k) = 3 + DecodedLen k" for k
      by (simp add: DecodedLen_def)
    with less.IH [of m] 4 show ?thesis
      by (simp only: EncodedLen_step)
  qed (simp_all add: EncodedLen_small DecodedLen_def)
qed

lemma sextets_val:
  fixes val :: nat
  assumes "val < 16777216"
  shows "val div 262144 mod 64 * 262144 + val div 4096 mod 64 * 4096
         + val div 64 mod 64 * 64 + val mod 64 = val"
proof -
  define q1 where "q1 = val div 64"
  define q2 where "q2 = q1 div 64"
  define q3 where "q3 = q2 div 64"
  have d2: "val div 4096 = q2"
    unfolding q2_def q1_def by (simp add: div_mult2_eq [symmetric])
  have d3: "val div 262144 = q3"
    unfolding q3_def q2_def q1_def by (simp add: div_mult2_eq [symmetric])
  have "q3 < 64"
    using assms unfolding d3 [symmetric] by simp
  then have m3: "q3 mod 64 = q3"
    by simp
  have e1: "val = q1 * 64 + val mod 64"
    unfolding q1_def by simp
  have e2: "q1 = q2 * 64 + q1 mod 64"
    unfolding q2_def by simp
  have e3: "q2 = q3 * 64 + q2 mod 64"
    unfolding q3_def by simp
  have "q3 * 262144 + q2 mod 64 * 4096 + q1 mod 64 * 64 + val mod 64 = val"
    using e1 e2 e3 by linarith
  then show ?thesis
    by (simp only: d2 d3 m3 q1_def [symmetric])
qed
lemma val_bytes:
  fixes a b c :: nat
  assumes "a < 256" "b < 256" "c < 256"
  shows "(a * 65536 + b * 256 + c) div 65536 = a"
    and "(a * 65536 + b * 256 + c) div 256 mod 256 = b"
    and "(a * 65536 + b * 256 + c) mod 256 = c"
    and "a * 65536 + b * 256 + c < 16777216"
proof -
  have e: "a * 65536 + b * 256 + c = (a * 256 + b) * 256 + c"
    by simp
  have d: "(a * 65536 + b * 256 + c) div 256 = a * 256 + b"
    unfolding e using assms(3) by simp
  show "(a * 65536 + b * 256 + c) div 256 mod 256 = b"
    unfolding d using assms(2) by simp
  show "(a * 65536 + b * 256 + c) mod 256 = c"
    unfolding e using assms(3) by (simp only: mod_mult_self3 mod_less)
  have f: "a * 65536 + b * 256 + c = a * 65536 + (b * 256 + c)"
    by simp
  have "b * 256 + c < 65536"
    using assms by linarith
  then show "(a * 65536 + b * 256 + c) div 65536 = a"
    unfolding f by simp
  show "a * 65536 + b * 256 + c < 16777216"
    using assms by linarith
qed


lemma quantum_of_val:
  fixes x y z :: char
  defines "val \<equiv> of_char x * 65536 + of_char y * 256 + (of_char z :: nat)"
  shows "val div 2 ^ 18 mod 64 * 262144 + val div 2 ^ 12 mod 64 * 4096
           + val div 2 ^ 6 mod 64 * 64 + val div 2 ^ 0 mod 64 = val"
    and "char_of (val div 65536) = x"
    and "char_of (val div 256) = y"
    and "char_of val = z"
proof -
  have b: "of_char x < (256::nat)" "of_char y < (256::nat)" "of_char z < (256::nat)"
    by (rule nat_of_char_less_256)+
  note vb = val_bytes [OF b, folded val_def]
  have p: "(2::nat) ^ 18 = 262144" "(2::nat) ^ 12 = 4096" "(2::nat) ^ 6 = 64" "(2::nat) ^ 0 = 1"
    by simp_all
  show "val div 2 ^ 18 mod 64 * 262144 + val div 2 ^ 12 mod 64 * 4096
         + val div 2 ^ 6 mod 64 * 64 + val div 2 ^ 0 mod 64 = val"
    unfolding p div_by_1 using vb(4) by (rule sextets_val)
  have "char_of (val div 256) = (char_of (val div 256 mod 256) :: char)"
    by (simp only: char_of_mod_256)
  then show "char_of (val div 256) = y"
    by (simp only: vb(2) char_of_char)
  have "char_of val = (char_of (val mod 256) :: char)"
    by (simp only: char_of_mod_256)
  then show "char_of val = z"
    by (simp only: vb(3) char_of_char)
  show "char_of (val div 65536) = x"
    by (simp only: vb(1) char_of_char)
qed

lemma quantum_bytes4:
  "quantum_bytes [a, b, c, d] =
     [char_of ((a * 262144 + b * 4096 + c * 64 + d) div 65536),
      char_of ((a * 262144 + b * 4096 + c * 64 + d) div 256),
      char_of (a * 262144 + b * 4096 + c * 64 + d)]"
  by (simp add: quantum_bytes_def Let_def)

lemma quantum_bytes3:
  "quantum_bytes [a, b, c] =
     [char_of ((a * 262144 + b * 4096 + c * 64 + 0) div 65536),
      char_of ((a * 262144 + b * 4096 + c * 64 + 0) div 256)]"
  by (simp add: quantum_bytes_def Let_def)

lemma quantum_bytes2:
  "quantum_bytes [a, b] =
     [char_of ((a * 262144 + b * 4096 + 0 * 64 + 0) div 65536)]"
  by (simp add: quantum_bytes_def Let_def)


lemma mod64_neq_255: "(n::nat) mod 64 \<noteq> 255"
proof -
  have "n mod 64 < 64" by simp
  then show ?thesis by linarith
qed

lemma decodeMap_sextet_neq: "decodeMap (sextet val sh) \<noteq> 255"
  by (simp only: decodeMap_sextet mod64_neq_255 not_False_eq_True)

lemma b64_scan_quantum:
  assumes "decodeMap c1 \<noteq> 255" "decodeMap c2 \<noteq> 255" "decodeMap c3 \<noteq> 255"
    "decodeMap c4 \<noteq> 255"
  shows "b64_scan [] (c1 # c2 # c3 # c4 # src) =
    (case b64_scan [] src of Inl err \<Rightarrow> Inl err
     | Inr rest \<Rightarrow>
         Inr (quantum_bytes [decodeMap c1, decodeMap c2, decodeMap c3, decodeMap c4] @ rest))"
  using assms by (simp add: Let_def split: sum.splits)

lemma b64_scan_last3:
  assumes "decodeMap c1 \<noteq> 255" "decodeMap c2 \<noteq> 255" "decodeMap c3 \<noteq> 255"
  shows "b64_scan [] [c1, c2, c3] = Inr (quantum_bytes [decodeMap c1, decodeMap c2, decodeMap c3])"
  using assms by (simp add: Let_def)

lemma b64_scan_last2:
  assumes "decodeMap c1 \<noteq> 255" "decodeMap c2 \<noteq> 255"
  shows "b64_scan [] [c1, c2] = Inr (quantum_bytes [decodeMap c1, decodeMap c2])"
  using assms by (simp add: Let_def)

lemma b64_roundtrip: "b64_scan [] (b64_Encode src) = Inr src"
proof (induction src rule: b64_Encode.induct)
  case (1 x y z src)
  define val where "val = of_char x * 65536 + of_char y * 256 + (of_char z :: nat)"
  have enc: "b64_Encode (x # y # z # src) =
      sextet val 18 # sextet val 12 # sextet val 6 # sextet val 0 # b64_Encode src"
    by (simp add: val_def Let_def)
  note qv = quantum_of_val [of x y z, folded val_def]
  have "quantum_bytes [decodeMap (sextet val 18), decodeMap (sextet val 12),
      decodeMap (sextet val 6), decodeMap (sextet val 0)] = [x, y, z]"
    by (simp only: decodeMap_sextet quantum_bytes4 qv)
  then show ?case
    using "1.IH" by (simp only: enc b64_scan_quantum [OF decodeMap_sextet_neq decodeMap_sextet_neq
      decodeMap_sextet_neq decodeMap_sextet_neq]) simp
next
  case (2 x y)
  define val where "val = of_char x * 65536 + of_char y * 256 + (of_char (CHR 0x00) :: nat)"
  have v: "val = of_char x * 65536 + of_char y * 256"
    by (simp add: val_def)
  have enc: "b64_Encode [x, y] = [sextet val 18, sextet val 12, sextet val 6]"
    by (simp add: v Let_def)
  note qv = quantum_of_val [of x y "CHR 0x00", folded val_def]
  have "val = (of_char x * 1024 + of_char y * 4) * 64"
    by (simp add: v)
  then have "val mod 64 = 0"
    by (simp only: mod_mult_self2_is_0)
  then have m: "val div 2 ^ 0 mod 64 = 0"
    by simp
  have "quantum_bytes [decodeMap (sextet val 18), decodeMap (sextet val 12),
      decodeMap (sextet val 6)] = [x, y]"
    using qv(1) [unfolded m] by (simp only: decodeMap_sextet quantum_bytes3 qv(2,3))
  then show ?case
    by (simp only: enc b64_scan_last3 [OF decodeMap_sextet_neq decodeMap_sextet_neq
      decodeMap_sextet_neq])
next
  case (3 x)
  define val where
    "val = of_char x * 65536 + of_char (CHR 0x00) * 256 + (of_char (CHR 0x00) :: nat)"
  have v: "val = of_char x * 65536"
    by (simp add: val_def)
  have enc: "b64_Encode [x] = [sextet val 18, sextet val 12]"
    by (simp add: v Let_def)
  note qv = quantum_of_val [of x "CHR 0x00" "CHR 0x00", folded val_def]
  have w: "val = (of_char x * 16 * 64) * 64"
    by (simp add: v)
  have "val div 64 = of_char x * 16 * 64"
    unfolding w by simp
  then have "val div 64 mod 64 = 0"
    by (simp only: mod_mult_self2_is_0)
  moreover have "val mod 64 = 0"
    unfolding w by (simp only: mod_mult_self2_is_0)
  ultimately have "val mod 64 = 0" "val div 64 mod 64 = 0"
    by simp_all
  then have m: "val div 2 ^ 0 mod 64 = 0" "val div 2 ^ 6 mod 64 = 0"
    by simp_all
  have "quantum_bytes [decodeMap (sextet val 18), decodeMap (sextet val 12)] = [x]"
    using qv(1) [unfolded m] by (simp only: decodeMap_sextet quantum_bytes2 qv(2))
  then show ?case
    by (simp only: enc b64_scan_last2 [OF decodeMap_sextet_neq decodeMap_sextet_neq])
next
  case 4
  show ?case by simp
qed

lemma b64_Decode_Encode: "b64_Decode (b64_Encode src) = Inr src"
  by (simp only: b64_Decode_def b64_roundtrip)

lemma hash_notin_b64_Encode: "CHR ''#'' \<notin> set (b64_Encode src)"
  using set_b64_Encode [of src] hash_notin_encodeStd by blast

subsection \<open>Searching for the delimiter\<close>

lemma Index_from_single: "Index_from i s [c] = - 1 \<longleftrightarrow> c \<notin> set s"
  by (induction s arbitrary: i) auto

lemma Index_from_found: "c \<notin> set pre \<Longrightarrow> Index_from i (pre @ c # post) [c] = int (i + length pre)"
  by (induction pre arbitrary: i) auto

subsection \<open>The envelope\<close>

lemma copy_into_zeros: "copy (make_bytes (length src + k)) src = src @ make_bytes k"
  by (simp add: copy_def make_bytes_def)

lemma copy_exact: "length dst = length src \<Longrightarrow> copy dst src = src"
  by (simp add: copy_def)

lemma envelope_bytes:
  fixes key encrypted :: bytes
  defines "prefix0 \<equiv> make_bytes (EncodedLen (length key) + 2)"
  defines "prefix1 \<equiv> take 1 prefix0 @ copy (drop 1 prefix0) (b64_Encode key)"
  defines "prefix2 \<equiv> prefix1[0 := CHR ''#'']"
  defines "prefix3 \<equiv> prefix2[length prefix2 - 1 := CHR ''#'']"
  defines "blob0 \<equiv> make_bytes (length prefix3 + length encrypted)"
  defines "blob1 \<equiv> copy blob0 prefix3"
  shows "take (length prefix3) blob1 @ copy (drop (length prefix3) blob1) encrypted =
         CHR ''#'' # b64_Encode key @ CHR ''#'' # encrypted"
proof -
  let ?e = "b64_Encode key"
  have n: "EncodedLen (length key) = length ?e"
    by (simp add: length_b64_Encode)
  have p0: "prefix0 = CHR 0x00 # make_bytes (length ?e + 1)"
    by (simp add: prefix0_def n make_bytes_def)
  have p1: "prefix1 = CHR 0x00 # ?e @ [CHR 0x00]"
    using copy_into_zeros [of ?e 1] by (simp add: prefix1_def p0 make_bytes_def)
  have p2: "prefix2 = CHR ''#'' # ?e @ [CHR 0x00]"
    by (simp add: prefix2_def p1)
  have p3: "prefix3 = CHR ''#'' # ?e @ [CHR ''#'']"
    by (simp add: prefix3_def p2 list_update_append)
  have b1: "blob1 = prefix3 @ make_bytes (length encrypted)"
    by (simp add: blob1_def blob0_def copy_into_zeros)
  have "copy (make_bytes (length encrypted)) encrypted = encrypted"
    by (simp add: copy_exact make_bytes_def)
  then show ?thesis
    by (simp add: b1) (simp add: p3)
qed

lemma Encrypt_unfold:
  "Encrypt X payload s =
     (case dataKey X (defaultEncryptionKey s) s of
        (Inl err, s1) \<Rightarrow> (Inl err, s1)
      | (Inr dk, s1) \<Rightarrow>
          (case encrypt X payload dk of
             Inl err \<Rightarrow> (Inl err, s1)
           | Inr encrypted \<Rightarrow>
               (Inr (CHR ''#'' # b64_Encode (defaultEncryptionKey s) @ CHR ''#'' # encrypted), s1)))"
  unfolding Encrypt_def Let_def envelope_bytes ..

lemma Encrypt_InrD:
  assumes "Encrypt X payload s = (Inr blob, s')"
  obtains dk encrypted where
    "dataKey X (defaultEncryptionKey s) s = (Inr dk, s')"
    "encrypt X payload dk = Inr encrypted"
    "blob = CHR ''#'' # b64_Encode (defaultEncryptionKey s) @ CHR ''#'' # encrypted"
  using assms unfolding Encrypt_unfold
  by (auto split: prod.splits sum.splits)

lemma Decrypt_envelope_of_Encode:
  "Decrypt_envelope X (b64_Encode key @ CHR ''#'' # encrypted) s =
     (case dataKey X key s of
        (Inl err, s1) \<Rightarrow> (Inl err, s1)
      | (Inr dk, s1) \<Rightarrow> (decrypt X encrypted dk, s1))"
proof -
  let ?e = "b64_Encode key"
  have i: "bytes_Index (?e @ CHR ''#'' # encrypted) [CHR ''#''] = int (length ?e)"
    using Index_from_found [OF hash_notin_b64_Encode, of 0 key encrypted]
    by (simp add: bytes_Index_def)
  have k: "copy (make_bytes (DecodedLen (length ?e))) key = key"
    by (simp add: length_b64_Encode DecodedLen_EncodedLen copy_exact make_bytes_def)
  show ?thesis
    by (simp add: Decrypt_envelope_def i b64_Decode_Encode k Let_def)
qed

subsection \<open>Resolving a data key\<close>

lemma Minute_pos: "0 < 15 * Minute"
  by (simp add: Minute_def)

lemma dataKey_fetch_InrD:
  assumes "dataKey_fetch X key s = (Inr plain, s')"
  obtains m dk provider where
    "GetDataKey (store s) key = Inr dk"
    "providers s (Provider dk) = Some provider"
    "provider_Decrypt X (SecretKey s) provider (EncryptedData dk) = Inr plain"
    "dataKeyCache s = alloc_map m"
    "s' = s\<lparr>calls := calls s @ [GetDataKeyCall key,
                  ProviderDecryptCall (Provider dk) (EncryptedData dk)],
              dataKeyCache := alloc_map (m(key \<mapsto>
                  \<lparr>expiry = Add (now s) (15 * Minute), dataKey_item = plain\<rparr>))\<rparr>"
proof -
  from assms obtain dk where dk: "GetDataKey (store s) key = Inr dk"
    by (auto simp: dataKey_fetch_def Let_def split: sum.splits)
  from assms dk obtain provider where pr: "providers s (Provider dk) = Some provider"
    by (auto simp: dataKey_fetch_def Let_def split: option.splits)
  from assms dk pr
  have dec: "provider_Decrypt X (SecretKey s) provider (EncryptedData dk) = Inr plain"
    by (auto simp: dataKey_fetch_def Let_def split: sum.splits)
  from assms dk pr dec obtain m where m: "dataKeyCache s = alloc_map m"
    by (cases "dataKeyCache s") (auto simp: dataKey_fetch_def Let_def)
  from assms dk pr dec m
  have "s' = s\<lparr>calls := calls s @ [GetDataKeyCall key,
                  ProviderDecryptCall (Provider dk) (EncryptedData dk)],
              dataKeyCache := alloc_map (m(key \<mapsto>
                  \<lparr>expiry = Add (now s) (15 * Minute), dataKey_item = plain\<rparr>))\<rparr>"
    by (auto simp: dataKey_fetch_def Let_def)
  with dk pr dec m show thesis
    by (rule that)
qed

text \<open>
  With a \<open>nil\<close> cache map the fetch cannot succeed: when the store and the provider
  have done their part, the assignment to the cache entry panics.
\<close>

lemma dataKey_fetch_nil_cache:
  assumes "dataKeyCache s = nil_map"
    and "GetDataKey (store s) key = Inr dk"
    and "providers s (Provider dk) = Some provider"
    and "provider_Decrypt X (SecretKey s) provider (EncryptedData dk) = Inr plain"
  shows "fst (dataKey_fetch X key s) = Inl (Panic ''assignment to entry in nil map'')"
  using assms by (simp add: dataKey_fetch_def Let_def)

lemma dataKey_fetch_store: "store (snd (dataKey_fetch X key s)) = store s"
  by (simp add: dataKey_fetch_def Let_def split: sum.splits option.splits)

lemma dataKey_fetch_now: "now (snd (dataKey_fetch X key s)) = now s"
  by (simp add: dataKey_fetch_def Let_def split: sum.splits option.splits)

lemma dataKey_fetch_calls:
  "\<exists>cs. calls (snd (dataKey_fetch X key s)) = calls s @ GetDataKeyCall key # cs \<and>
        filter is_store_call cs = []"
  by (simp add: dataKey_fetch_def Let_def split: sum.splits option.splits)

lemma dataKey_hit:
  assumes "key \<noteq> []" "map_index (dataKeyCache s) key = Some item"
    "\<not> (Before (expiry item) (now s) \<and> \<not> IsZero (expiry item))"
  shows "dataKey X key s = (Inr (dataKey_item item), s)"
  using assms by (auto simp: dataKey_def)

lemma dataKey_expired:
  assumes "key \<noteq> []" "map_index (dataKeyCache s) key = Some item"
    "Before (expiry item) (now s)" "\<not> IsZero (expiry item)"
  shows "dataKey X key s =
    dataKey_fetch X key (s\<lparr>dataKeyCache := map_delete (dataKeyCache s) key\<rparr>)"
  using assms by (simp add: dataKey_def)

lemma dataKey_absent:
  assumes "key \<noteq> []" "map_index (dataKeyCache s) key = None"
  shows "dataKey X key s = dataKey_fetch X key s"
  using assms by (simp add: dataKey_def)

lemma dataKey_cases:
  obtains (static) "key = []" "dataKey X key s = (Inr (SecretKey s), s)"
  | (hit) item where "key \<noteq> []" "map_index (dataKeyCache s) key = Some item"
      "\<not> (Before (expiry item) (now s) \<and> \<not> IsZero (expiry item))"
      "dataKey X key s = (Inr (dataKey_item item), s)"
  | (expired) item where "key \<noteq> []" "map_index (dataKeyCache s) key = Some item"
      "Before (expiry item) (now s)" "\<not> IsZero (expiry item)"
      "dataKey X key s =
         dataKey_fetch X key (s\<lparr>dataKeyCache := map_delete (dataKeyCache s) key\<rparr>)"
  | (absent) "key \<noteq> []" "map_index (dataKeyCache s) key = None"
      "dataKey X key s = dataKey_fetch X key s"
proof (cases "key = []")
  case True
  then show thesis
    by (intro static) (simp_all add: dataKey_def)
next
  case False
  show thesis
  proof (cases "map_index (dataKeyCache s) key")
    case None
    with False show thesis
      by (intro absent dataKey_absent)
  next
    case (Some item)
    show thesis
    proof (cases "Before (expiry item) (now s) \<and> \<not> IsZero (expiry item)")
      case True
      with False Some show thesis
        by (intro expired [of item] dataKey_expired) auto
    next
      case no: False
      with False Some show thesis
        by (intro hit [of item] dataKey_hit) auto
    qed
  qed
qed

lemma fresh_entry_valid: "\<not> Before (Add t (15 * Minute)) t"
  using Minute_pos by (simp add: Before_def Add_def)

lemma dataKey_fetch_then_hit:
  assumes "key \<noteq> []" "dataKey_fetch X key s = (Inr plain, s')"
  shows "dataKey X key s' = (Inr plain, s')"
proof -
  from assms(2) obtain m and dk :: DataKey where
    s': "s' = s\<lparr>calls := calls s @ [GetDataKeyCall key,
                  ProviderDecryptCall (Provider dk) (EncryptedData dk)],
              dataKeyCache := alloc_map (m(key \<mapsto>
                  \<lparr>expiry = Add (now s) (15 * Minute), dataKey_item = plain\<rparr>))\<rparr>"
    by (rule dataKey_fetch_InrD)
  let ?item = "\<lparr>expiry = Add (now s) (15 * Minute), dataKey_item = plain\<rparr>"
  have "map_index (dataKeyCache s') key = Some ?item" "now s' = now s"
    by (simp_all add: s')
  then have "dataKey X key s' = (Inr (dataKey_item ?item), s')"
    using assms(1) fresh_entry_valid [of "now s"]
    by (intro dataKey_hit) simp_all
  then show ?thesis by simp
qed

lemma dataKey_again:
  assumes "dataKey X key s = (Inr plain, s')"
  shows "dataKey X key s' = (Inr plain, s')"
proof (cases rule: dataKey_cases [of key X s])
  case static
  with assms show ?thesis by auto
next
  case (hit item)
  with assms show ?thesis by simp
next
  case (expired item)
  with assms show ?thesis by (simp add: dataKey_fetch_then_hit)
next
  case absent
  with assms show ?thesis by (simp add: dataKey_fetch_then_hit)
qed

lemma toy_roundtrip:
  "\<forall>plain key c. encrypt toy plain key = Inr c \<longrightarrow> decrypt toy c key = Inr plain"
  by (auto simp: toy_def toy_encrypt_def toy_decrypt_def)

lemma Encrypt_keyed_value: "fst (Encrypt toy ''hi'' keyed_process) = Inr ''#azE#data-keyhi''"
  by (simp add: Encrypt_unfold keyed_process_def zero_process_def keyed_store_def empty_store_def
      dataKey_def dataKey_fetch_def GetDataKey_def kms_def toy_def toy_encrypt_def
      Let_def sextet_def encodeStd_def)

lemma map_delete_absent: "map_index c k = None \<Longrightarrow> map_delete c k = c"
  by (cases c) (auto simp: fun_upd_idem)

lemma map_index_delete: "map_index (map_delete c k) k = None"
  by (cases c) simp_all

lemma dataKey_fetch_no_provider:
  assumes "GetDataKey (store s) key = Inr dk" "providers s (Provider dk) = None"
  shows "dataKey_fetch X key s =
    (Inl (ErrNoProvider (Provider dk)), s\<lparr>calls := calls s @ [GetDataKeyCall key]\<rparr>)"
  using assms by (simp add: dataKey_fetch_def Let_def)

lemma dataKey_miss_InrD:
  assumes "key \<noteq> []"
    and "\<forall>item. map_index (dataKeyCache s0) key = Some item \<longrightarrow>
           Before (expiry item) (now s0) \<and> \<not> IsZero (expiry item)"
    and "dataKey X key s0 = (Inr plain, s1)"
  obtains p blob where
    "calls s1 = calls s0 @ [GetDataKeyCall key, ProviderDecryptCall p blob]"
    "map_index (dataKeyCache s1) key =
       Some \<lparr>expiry = Add (now s0) (15 * Minute), dataKey_item = plain\<rparr>"
proof (cases rule: dataKey_cases [of key X s0])
  case static
  with assms(1) show ?thesis by simp
next
  case (hit item)
  with assms(2) show ?thesis by blast
next
  case (expired item)
  let ?s = "s0\<lparr>dataKeyCache := map_delete (dataKeyCache s0) key\<rparr>"
  from expired assms(3) have "dataKey_fetch X key ?s = (Inr plain, s1)"
    by simp
  then obtain m and dk :: DataKey where
    "s1 = ?s\<lparr>calls := calls ?s @ [GetDataKeyCall key,
                  ProviderDecryptCall (Provider dk) (EncryptedData dk)],
              dataKeyCache := alloc_map (m(key \<mapsto>
                  \<lparr>expiry = Add (now ?s) (15 * Minute), dataKey_item = plain\<rparr>))\<rparr>"
    by (rule dataKey_fetch_InrD)
  then have "calls s1 = calls s0 @ [GetDataKeyCall key,
        ProviderDecryptCall (Provider dk) (EncryptedData dk)]"
    "map_index (dataKeyCache s1) key =
       Some \<lparr>expiry = Add (now s0) (15 * Minute), dataKey_item = plain\<rparr>"
    by simp_all
  then show ?thesis
    by (rule that)
next
  case absent
  with assms(3) have "dataKey_fetch X key s0 = (Inr plain, s1)"
    by simp
  then obtain m and dk :: DataKey where
    "s1 = s0\<lparr>calls := calls s0 @ [GetDataKeyCall key,
                  ProviderDecryptCall (Provider dk) (EncryptedData dk)],
              dataKeyCache := alloc_map (m(key \<mapsto>
                  \<lparr>expiry = Add (now s0) (15 * Minute), dataKey_item = plain\<rparr>))\<rparr>"
    by (rule dataKey_fetch_InrD)
  then have "calls s1 = calls s0 @ [GetDataKeyCall key,
        ProviderDecryptCall (Provider dk) (EncryptedData dk)]"
    "map_index (dataKeyCache s1) key =
       Some \<lparr>expiry = Add (now s0) (15 * Minute), dataKey_item = plain\<rparr>"
    by simp_all
  then show ?thesis
    by (rule that)
qed

lemma dataKey_evict_calls:
  assumes "key \<noteq> []" "map_index (dataKeyCache s) key = Some item"
    "Before (expiry item) (now s)" "\<not> IsZero (expiry item)"
  shows "\<exists>cs. calls (snd (dataKey X key s)) = calls s @ GetDataKeyCall key # cs \<and>
           filter is_store_call cs = []"
  using dataKey_fetch_calls [of X key "s\<lparr>dataKeyCache := map_delete (dataKeyCache s) key\<rparr>"]
  by (simp add: dataKey_expired [OF assms])

subsection \<open>What a call does to the store and to the log of calls\<close>

lemma dataKey_fetch_writes:
  "\<exists>cs. calls (snd (dataKey_fetch X key s)) = calls s @ cs \<and> filter is_store_write cs = []"
  by (simp add: dataKey_fetch_def Let_def split: sum.splits option.splits)

lemma dataKey_store: "store (snd (dataKey X key s)) = store s"
  by (cases rule: dataKey_cases [of key X s]) (simp_all add: dataKey_fetch_store)

lemma dataKey_writes:
  "\<exists>cs. calls (snd (dataKey X key s)) = calls s @ cs \<and> filter is_store_write cs = []"
proof (cases rule: dataKey_cases [of key X s])
  case (expired item)
  show ?thesis
    using dataKey_fetch_writes [of X key "s\<lparr>dataKeyCache := map_delete (dataKeyCache s) key\<rparr>"]
    by (simp add: expired)
next
  case absent
  show ?thesis
    using dataKey_fetch_writes [of X key s] by (simp add: absent)
qed simp_all

lemma Encrypt_snd: "snd (Encrypt X payload s) = snd (dataKey X (defaultEncryptionKey s) s)"
  by (simp add: Encrypt_unfold split: prod.splits sum.splits)

lemma Decrypt_envelope_snd:
  "snd (Decrypt_envelope X payload1 s) = s \<or>
   (\<exists>key. snd (Decrypt_envelope X payload1 s) = snd (dataKey X key s))"
  by (auto simp: Decrypt_envelope_def Let_def split: prod.splits sum.splits) (metis snd_conv)+

lemma Decrypt_snd:
  "snd (Decrypt X payload s) = s \<or> (\<exists>key. snd (Decrypt X payload s) = snd (dataKey X key s))"
  using Decrypt_envelope_snd [of X "drop 1 payload" s] by (simp add: Decrypt_def)

subsection \<open>Bootstrapping the root key\<close>

lemma Init_existing:
  assumes "GetDataKey (store s) ''root'' = Inr dk"
  shows "Init X s =
    (None, s\<lparr>providers := [[] \<mapsto> secretKey],
             calls := calls s @ [GetDataKeyCall ''root''], util_hooked := True\<rparr>)"
  using assms by (simp add: Init_def Let_def)

lemma Init_lookup_failure:
  assumes "GetDataKey (store s) ''root'' = Inl err" "\<not> errors_Is err ErrDataKeyNotFound"
  shows "Init X s =
    (Some err, s\<lparr>providers := [[] \<mapsto> secretKey],
                 calls := calls s @ [GetDataKeyCall ''root'']\<rparr>)"
  using assms by (simp add: Init_def Let_def)

lemma Init_not_found:
  assumes "GetDataKey (store s) ''root'' = Inl err" "errors_Is err ErrDataKeyNotFound"
  shows "Init X s =
    (case newRandomDataKey X ''root''
            (s\<lparr>providers := [[] \<mapsto> secretKey],
               calls := calls s @ [GetDataKeyCall ''root'']\<rparr>) of
       (Some err1, s2) \<Rightarrow> (Some err1, s2)
     | (None, s2) \<Rightarrow> (None, s2\<lparr>util_hooked := True\<rparr>))"
  using assms by (simp add: Init_def Let_def)

lemma Encrypt_store: "store (snd (Encrypt X payload s)) = store s"
  by (simp add: Encrypt_snd dataKey_store)

lemma Encrypt_writes:
  "\<exists>cs. calls (snd (Encrypt X payload s)) = calls s @ cs \<and> filter is_store_write cs = []"
  by (simp add: Encrypt_snd dataKey_writes)

lemma newRandomDataKey_NoneD:
  assumes "newRandomDataKey X base_key s = (None, s2)"
  obtains encrypted s1 cs where
    "store s1 = store s" "calls s1 = calls s @ cs" "filter is_store_write cs = []"
    "s2 = s1\<lparr>calls := calls s1 @ [CreateDataKeyCall
                 \<lparr>Active = True, Name = base_key, Provider = defaultProvider s1,
                    EncryptedData = encrypted\<rparr>],
              store := snd (CreateDataKey (store s1)
                 \<lparr>Active = True, Name = base_key, Provider = defaultProvider s1,
                    EncryptedData = encrypted\<rparr>)\<rparr>"
proof -
  from assms obtain r where r: "rand_Read X 16 = Inr r"
    by (auto simp: newRandomDataKey_def split: sum.splits)
  let ?b = "copy (make_bytes 16) r"
  from assms r obtain encrypted s1 where e: "Encrypt X ?b s = (Inr encrypted, s1)"
    by (auto simp: newRandomDataKey_def Let_def split: sum.splits prod.splits)
  from Encrypt_writes [of X ?b s] e obtain cs where
    cs: "calls s1 = calls s @ cs" "filter is_store_write cs = []"
    by auto
  have st: "store s1 = store s"
    using Encrypt_store [of X ?b s] e by simp
  have "s2 = s1\<lparr>calls := calls s1 @ [CreateDataKeyCall
                 \<lparr>Active = True, Name = base_key, Provider = defaultProvider s1,
                    EncryptedData = encrypted\<rparr>],
              store := snd (CreateDataKey (store s1)
                 \<lparr>Active = True, Name = base_key, Provider = defaultProvider s1,
                    EncryptedData = encrypted\<rparr>)\<rparr>"
    using assms r e by (simp add: newRandomDataKey_def Let_def split: prod.splits)
  with st cs show thesis
    by (rule that)
qed

lemma CreateDataKey_served:
  "createFault st dk = None \<Longrightarrow>
     CreateDataKey st dk = (None, st\<lparr>dataKeys := (dataKeys st)(Name dk \<mapsto> dk)\<rparr>)"
  by (simp add: CreateDataKey_def)

lemma Init_fresh:
  assumes get: "getFault (store s) ''root'' = None"
    and create: "\<forall>dk. createFault (store s) dk = None"
    and fresh: "dataKeys (store s) ''root'' = None"
    and init: "Init X s = (None, s1)"
  obtains dk cs where
    "Name dk = ''root''"
    "store s1 = (store s)\<lparr>dataKeys := (dataKeys (store s))(''root'' \<mapsto> dk)\<rparr>"
    "calls s1 = calls s @ cs"
    "filter is_store_write cs = [CreateDataKeyCall dk]"
proof -
  let ?s = "s\<lparr>providers := [[] \<mapsto> secretKey], calls := calls s @ [GetDataKeyCall ''root'']\<rparr>"
  have "GetDataKey (store s) ''root'' = Inl ErrDataKeyNotFound"
    using get fresh by (simp add: GetDataKey_def)
  then have "Init X s =
    (case newRandomDataKey X ''root'' ?s of
       (Some err1, s2) \<Rightarrow> (Some err1, s2)
     | (None, s2) \<Rightarrow> (None, s2\<lparr>util_hooked := True\<rparr>))"
    by (rule Init_not_found) simp
  with init obtain s2 where
    n: "newRandomDataKey X ''root'' ?s = (None, s2)" and s1: "s1 = s2\<lparr>util_hooked := True\<rparr>"
    by (auto split: prod.splits option.splits)
  from n obtain encrypted s' cs where
    st: "store s' = store ?s" and c: "calls s' = calls ?s @ cs" and
    w: "filter is_store_write cs = []" and
    s2: "s2 = s'\<lparr>calls := calls s' @ [CreateDataKeyCall
                 \<lparr>Active = True, Name = ''root'', Provider = defaultProvider s',
                    EncryptedData = encrypted\<rparr>],
              store := snd (CreateDataKey (store s')
                 \<lparr>Active = True, Name = ''root'', Provider = defaultProvider s',
                    EncryptedData = encrypted\<rparr>)\<rparr>"
    by (rule newRandomDataKey_NoneD)
  let ?dk = "\<lparr>Active = True, Name = ''root'', Provider = defaultProvider s',
               EncryptedData = encrypted\<rparr>"
  have cr: "CreateDataKey (store s') ?dk =
      (None, (store s)\<lparr>dataKeys := (dataKeys (store s))(''root'' \<mapsto> ?dk)\<rparr>)"
    using create st CreateDataKey_served [of "store s" ?dk] by simp
  show thesis
  proof (rule that [of ?dk "GetDataKeyCall ''root'' # cs @ [CreateDataKeyCall ?dk]"])
    show "Name ?dk = ''root''"
      by simp
    show "store s1 = (store s)\<lparr>dataKeys := (dataKeys (store s))(''root'' \<mapsto> ?dk)\<rparr>"
      by (simp add: s1 s2 cr)
    show "calls s1 = calls s @ GetDataKeyCall ''root'' # cs @ [CreateDataKeyCall ?dk]"
      by (simp add: s1 s2 c)
    show "filter is_store_write (GetDataKeyCall ''root'' # cs @ [CreateDataKeyCall ?dk]) =
        [CreateDataKeyCall ?dk]"
      by (simp add: w)
  qed
qed

lemma newRandomDataKey_rand_failure:
  "rand_Read X 16 = Inl err \<Longrightarrow> newRandomDataKey X base_key s = (Some err, s)"
  by (simp add: newRandomDataKey_def)

lemma newRandomDataKey_Encrypt_failure:
  "rand_Read X 16 = Inr r \<Longrightarrow> Encrypt X (copy (make_bytes 16) r) s = (Inl err, s1) \<Longrightarrow>
     newRandomDataKey X base_key s = (Some err, s1)"
  by (simp add: newRandomDataKey_def)

lemma newRandomDataKey_store_error_dropped:
  "rand_Read X 16 = Inr r \<Longrightarrow> Encrypt X (copy (make_bytes 16) r) s = (Inr encrypted, s1) \<Longrightarrow>
     fst (newRandomDataKey X base_key s) = None"
  by (simp add: newRandomDataKey_def Let_def split: prod.splits)

lemma toy_random_bytes: "replicate 16 (CHR ''r'') = ''rrrrrrrrrrrrrrrr''"
  by code_simp

subsection \<open>The cache, where a map is allocated\<close>

text \<open>
  What the cache is written to do, on a process whose \<open>dataKeyCache\<close> is an allocated
  map: a first \<open>dataKey\<close> that finds no valid entry and succeeds has made exactly one
  lookup in the store and one provider decryption; a call with the cache it left behind,
  at a clock reading up to and including 15 minutes after the first, returns the same key
  and makes no call; a call at a later reading deletes the entry and goes on to the store.
\<close>

lemma dataKey_ttl_allocated_cache:
  assumes "key \<noteq> []"
    and "0 \<le> now s0"
    and "\<forall>item. map_index (dataKeyCache s0) key = Some item \<longrightarrow>
           Before (expiry item) (now s0) \<and> \<not> IsZero (expiry item)"
    and "dataKey X key s0 = (Inr plain, s1)"
  shows "(\<exists>p blob. calls s1 = calls s0 @ [GetDataKeyCall key, ProviderDecryptCall p blob]) \<and>
         (\<forall>s. dataKeyCache s = dataKeyCache s1 \<and> now s \<le> now s0 + 15 * Minute \<longrightarrow>
              dataKey X key s = (Inr plain, s)) \<and>
         (\<forall>s. dataKeyCache s = dataKeyCache s1 \<and> now s0 + 15 * Minute < now s \<longrightarrow>
              dataKey X key s =
                dataKey_fetch X key (s\<lparr>dataKeyCache := map_delete (dataKeyCache s) key\<rparr>) \<and>
              map_index (map_delete (dataKeyCache s) key) key = None \<and>
              (\<exists>cs. calls (snd (dataKey X key s)) = calls s @ GetDataKeyCall key # cs \<and>
                    filter is_store_call cs = []))"
proof -
  let ?item = "\<lparr>expiry = Add (now s0) (15 * Minute), dataKey_item = plain\<rparr>"
  from assms(1,3,4) obtain p blob where
    c: "calls s1 = calls s0 @ [GetDataKeyCall key, ProviderDecryptCall p blob]" and
    i: "map_index (dataKeyCache s1) key = Some ?item"
    by (rule dataKey_miss_InrD)
  have nz: "\<not> IsZero (expiry ?item)"
    using assms(2) Minute_pos by (simp add: IsZero_def Add_def)
  have within: "dataKey X key s = (Inr plain, s)"
    if "dataKeyCache s = dataKeyCache s1" "now s \<le> now s0 + 15 * Minute" for s
  proof -
    have "\<not> (Before (expiry ?item) (now s) \<and> \<not> IsZero (expiry ?item))"
      using that(2) by (simp add: Before_def Add_def)
    with assms(1) i that(1) have "dataKey X key s = (Inr (dataKey_item ?item), s)"
      by (intro dataKey_hit) simp_all
    then show ?thesis by simp
  qed
  have after: "dataKey X key s =
        dataKey_fetch X key (s\<lparr>dataKeyCache := map_delete (dataKeyCache s) key\<rparr>) \<and>
      map_index (map_delete (dataKeyCache s) key) key = None \<and>
      (\<exists>cs. calls (snd (dataKey X key s)) = calls s @ GetDataKeyCall key # cs \<and>
            filter is_store_call cs = [])"
    if "dataKeyCache s = dataKeyCache s1" "now s0 + 15 * Minute < now s" for s
  proof -
    have m: "map_index (dataKeyCache s) key = Some ?item"
      using i that(1) by simp
    have b: "Before (expiry ?item) (now s)"
      using that(2) by (simp add: Before_def Add_def)
    show ?thesis
      using dataKey_expired [OF assms(1) m b nz] dataKey_evict_calls [OF assms(1) m b nz]
      by (simp add: map_index_delete)
  qed
  from c within after show ?thesis
    by blast
qed

subsection \<open>The cache map that nothing allocates\<close>

text \<open>
  No method assigns the field \<open>dataKeyCache\<close>: a cache that is \<open>nil\<close> stays
  \<open>nil\<close> through every method, \<open>Init\<close> included, and on it \<open>dataKey\<close> never
  returns a key for a non-empty name; where the store and the provider have done their
  part it panics at the assignment of the entry, after both calls have been made.
\<close>

lemma dataKey_fetch_keeps_nil:
  "dataKeyCache s = nil_map \<Longrightarrow> dataKeyCache (snd (dataKey_fetch X key s)) = nil_map"
  by (simp add: dataKey_fetch_def Let_def split: sum.splits option.splits)

lemma dataKey_keeps_nil:
  "dataKeyCache s = nil_map \<Longrightarrow> dataKeyCache (snd (dataKey X key s)) = nil_map"
  by (simp add: dataKey_def dataKey_fetch_keeps_nil)

lemma dataKey_fetch_nil_fails:
  "dataKeyCache s = nil_map \<Longrightarrow> fst (dataKey_fetch X key s) \<noteq> Inr plain"
  by (simp add: dataKey_fetch_def Let_def split: sum.splits option.splits)

lemma dataKey_nil_fails:
  "key \<noteq> [] \<Longrightarrow> dataKeyCache s = nil_map \<Longrightarrow> fst (dataKey X key s) \<noteq> Inr plain"
  by (simp add: dataKey_def dataKey_fetch_nil_fails)

lemma dataKey_nil_cache_panics:
  assumes "key \<noteq> []" "dataKeyCache s = nil_map"
    and "GetDataKey (store s) key = Inr dk"
    and "providers s (Provider dk) = Some provider"
    and "provider_Decrypt X (SecretKey s) provider (EncryptedData dk) = Inr plain"
  shows "dataKey X key s =
    (Inl (Panic ''assignment to entry in nil map''),
     s\<lparr>calls := calls s @ [GetDataKeyCall key,
                  ProviderDecryptCall (Provider dk) (EncryptedData dk)]\<rparr>)"
  using assms by (simp add: dataKey_def dataKey_fetch_def Let_def)

lemma Encrypt_keeps_nil:
  "dataKeyCache s = nil_map \<Longrightarrow> dataKeyCache (snd (Encrypt X payload s)) = nil_map"
  by (simp add: Encrypt_snd dataKey_keeps_nil)

lemma newRandomDataKey_keeps_nil:
  assumes "dataKeyCache s = nil_map"
  shows "dataKeyCache (snd (newRandomDataKey X base_key s)) = nil_map"
proof (cases "rand_Read X 16")
  case (Inl err)
  with assms show ?thesis by (simp add: newRandomDataKey_def)
next
  case (Inr r)
  let ?e = "Encrypt X (copy (make_bytes 16) r) s"
  have "dataKeyCache (snd ?e) = nil_map"
    using assms by (rule Encrypt_keeps_nil)
  then show ?thesis
    using Inr by (cases ?e) (auto simp: newRandomDataKey_def Let_def split: sum.splits prod.splits)
qed

lemma Init_keeps_nil:
  assumes "dataKeyCache s = nil_map"
  shows "dataKeyCache (snd (Init X s)) = nil_map"
proof -
  let ?s = "s\<lparr>providers := [[] \<mapsto> secretKey], calls := calls s @ [GetDataKeyCall ''root'']\<rparr>"
  have "dataKeyCache (snd (newRandomDataKey X ''root'' ?s)) = nil_map"
    using assms by (intro newRandomDataKey_keeps_nil) simp
  then show ?thesis
    using assms
    by (cases "newRandomDataKey X ''root'' ?s")
       (auto simp: Init_def Let_def split: sum.splits option.splits)
qed

subsection \<open>The test double, evaluated\<close>

lemmas Init_eval = Init_def newRandomDataKey_def Encrypt_unfold dataKey_def CreateDataKey_def
  GetDataKey_def Let_def copy_def make_bytes_def zero_process_def empty_store_def toy_def
  toy_encrypt_def toy_decrypt_def toy_random_bytes

lemma vault_process_value:
  "dataKeyCache vault_process = nil_map"
  "providers vault_process = [[] \<mapsto> secretKey]"
  "GetDataKey (store vault_process) ''k1'' =
     Inr \<lparr>Active = True, Name = ''k1'', Provider = ''vault'', EncryptedData = ''yek-atad''\<rparr>"
  "calls vault_process =
     [GetDataKeyCall ''root'',
      CreateDataKeyCall \<lparr>Active = True, Name = ''root'', Provider = [],
        EncryptedData = ''##SW2YcwTIb9zpOOhoPsMmrrrrrrrrrrrrrrrr''\<rparr>]"
  by (simp_all add: vault_process_def rotated_store_def Init_eval)

lemma sealed_process_value:
  "dataKeyCache sealed_process = nil_map"
  "providers sealed_process = [[] \<mapsto> secretKey]"
  "SecretKey sealed_process = ''SW2YcwTIb9zpOOhoPsMm''"
  "GetDataKey (store sealed_process) ''k1'' =
     Inr \<lparr>Active = True, Name = ''k1'', Provider = [],
           EncryptedData = ''SW2YcwTIb9zpOOhoPsMmdata-key''\<rparr>"
  "calls sealed_process =
     [GetDataKeyCall ''root'',
      CreateDataKeyCall \<lparr>Active = True, Name = ''root'', Provider = [],
        EncryptedData = ''##SW2YcwTIb9zpOOhoPsMmrrrrrrrrrrrrrrrr''\<rparr>]"
  by (simp_all add: sealed_process_def sealed_store_def Init_eval)

lemma warm_process_value:
  "dataKey toy ''k1'' keyed_process = (Inr ''data-key'', warm_process)"
  "warm_process = keyed_process
     \<lparr>calls := [GetDataKeyCall ''k1'', ProviderDecryptCall ''kms'' ''yek-atad''],
      dataKeyCache := alloc_map [''k1'' \<mapsto>
        \<lparr>expiry = 1000 + 15 * Minute, dataKey_item = ''data-key''\<rparr>]\<rparr>"
  by (simp_all add: warm_process_def dataKey_def dataKey_fetch_def GetDataKey_def Let_def Add_def
      zero_process_def empty_store_def keyed_process_def keyed_store_def kms_def)

subsection \<open>The claims\<close>

text \<open>
  C1.  With a cipher whose \<open>decrypt\<close> undoes its \<open>encrypt\<close> under the same key:
  whenever \<open>Encrypt\<close> of a payload succeeds, whatever the bytes of the payload and
  whatever the name of the default encryption key, \<open>Decrypt\<close> of the blob in the
  process \<open>Encrypt\<close> leaves behind returns exactly the payload.
\<close>

theorem Decrypt_Encrypt:
  assumes cipher: "\<forall>plain key c. encrypt X plain key = Inr c \<longrightarrow> decrypt X c key = Inr plain"
    and enc: "Encrypt X p s = (Inr blob, s')"
  shows "Decrypt X blob s' = (Inr p, s')"
proof -
  from enc obtain dk encrypted where
    dk: "dataKey X (defaultEncryptionKey s) s = (Inr dk, s')" and
    e: "encrypt X p dk = Inr encrypted" and
    blob: "blob = CHR ''#'' # b64_Encode (defaultEncryptionKey s) @ CHR ''#'' # encrypted"
    by (rule Encrypt_InrD)
  from dk have "dataKey X (defaultEncryptionKey s) s' = (Inr dk, s')"
    by (rule dataKey_again)
  moreover from cipher e have "decrypt X encrypted dk = Inr p"
    by blast
  ultimately show ?thesis
    by (simp add: blob Decrypt_def Decrypt_envelope_of_Encode)
qed

theorem Decrypt_Encrypt_witness:
  "fst (Encrypt toy ''hi'' keyed_process) = Inr ''#azE#data-keyhi'' \<and>
   fst (Decrypt toy ''#azE#data-keyhi'' (snd (Encrypt toy ''hi'' keyed_process))) = Inr ''hi''"
proof -
  note f = Encrypt_keyed_value
  then have e: "Encrypt toy ''hi'' keyed_process =
      (Inr ''#azE#data-keyhi'', snd (Encrypt toy ''hi'' keyed_process))"
    by (simp add: prod_eq_iff)
  have "fst (Decrypt toy ''#azE#data-keyhi'' (snd (Encrypt toy ''hi'' keyed_process))) =
      Inr ''hi''"
    by (simp only: Decrypt_Encrypt [OF toy_roundtrip e] fst_conv)
  with f show ?thesis
    by (intro conjI)
qed

text \<open>
  C2.  \<open>Decrypt\<close> of the empty blob returns empty bytes and no error, and the process is
  left as it was: the log of calls has no new entry, so neither the store nor a provider
  has been called.
\<close>

theorem Decrypt_empty: "Decrypt X [] s = (Inr [], s)"
  by (simp add: Decrypt_def)

text \<open>
  C3.  A blob that starts with \<open>#\<close> and has no further \<open>#\<close> makes \<open>Decrypt\<close> fail
  with the error for a payload without a valid key; no plaintext is returned and nothing
  else happens.
\<close>

theorem Decrypt_malformed:
  "CHR ''#'' \<notin> set rest \<Longrightarrow> Decrypt X (CHR ''#'' # rest) s = (Inl ErrNoKeyInPayload, s)"
  by (simp add: Decrypt_def Decrypt_envelope_def bytes_Index_def Index_from_single)

theorem Decrypt_malformed_witness:
  "CHR ''#'' \<notin> set ''Zm9v'' \<and>
   Decrypt toy ''#Zm9v'' zero_process = (Inl ErrNoKeyInPayload, zero_process)"
  using Decrypt_malformed [of "''Zm9v''" toy zero_process] by simp

text \<open>
  C4.  \<open>newRandomDataKey\<close> returns the error of the random source and the error of
  \<open>Encrypt\<close> (\<open>newRandomDataKey_rand_failure\<close>, \<open>newRandomDataKey_Encrypt_failure\<close>),
  but not the error of the store: once the key is drawn and encrypted the method returns
  \<open>nil\<close> whatever \<open>CreateDataKey\<close> returns (\<open>newRandomDataKey_store_error_dropped\<close>).
  Here the store refuses the insert: \<open>CreateDataKey\<close> is called once and fails, no
  record is persisted, and \<open>newRandomDataKey\<close> and \<open>Init\<close> both return \<open>nil\<close>.
\<close>

theorem newRandomDataKey_locked_store:
  "fst (CreateDataKey locked_store
     \<lparr>Active = True, Name = ''root'', Provider = [],
        EncryptedData = ''##SW2YcwTIb9zpOOhoPsMmrrrrrrrrrrrrrrrr''\<rparr>) =
     Some (External ''database is locked'') \<and>
   fst (newRandomDataKey toy ''root'' (zero_process\<lparr>store := locked_store\<rparr>)) = None \<and>
   calls (snd (newRandomDataKey toy ''root'' (zero_process\<lparr>store := locked_store\<rparr>))) =
     [CreateDataKeyCall \<lparr>Active = True, Name = ''root'', Provider = [],
        EncryptedData = ''##SW2YcwTIb9zpOOhoPsMmrrrrrrrrrrrrrrrr''\<rparr>] \<and>
   dataKeys (store (snd (newRandomDataKey toy ''root'' (zero_process\<lparr>store := locked_store\<rparr>))))
     ''root'' = None \<and>
   fst (Init toy (zero_process\<lparr>store := locked_store\<rparr>)) = None"
  by (simp add: Init_def newRandomDataKey_def Encrypt_unfold dataKey_def CreateDataKey_def
      GetDataKey_def Let_def copy_def make_bytes_def
      locked_store_def zero_process_def empty_store_def toy_def toy_encrypt_def
      toy_random_bytes)

text \<open>
  C5.  With the empty default encryption key a successful \<open>Encrypt\<close> returns a blob
  that starts with \<open>##\<close> and touches nothing; \<open>Decrypt\<close> of that blob resolves the
  empty key name to the configured secret and decrypts the rest of the blob under it,
  and the process, with its log of calls, is as before: the store is not asked.
\<close>

theorem Encrypt_static_secret:
  assumes "defaultEncryptionKey s = []" and "Encrypt X p s = (Inr blob, s')"
  shows "take 2 blob = ''##'' \<and> s' = s \<and>
         dataKey X [] s' = (Inr (SecretKey s'), s') \<and>
         Decrypt X blob s' = (decrypt X (drop 2 blob) (SecretKey s'), s')"
proof -
  from assms(2) obtain dk encrypted where
    dk: "dataKey X (defaultEncryptionKey s) s = (Inr dk, s')" and
    blob: "blob = CHR ''#'' # b64_Encode (defaultEncryptionKey s) @ CHR ''#'' # encrypted"
    by (rule Encrypt_InrD)
  from dk assms(1) have s': "s' = s"
    by (simp add: dataKey_def)
  have b: "blob = CHR ''#'' # CHR ''#'' # encrypted"
    using blob assms(1) by simp
  have "Decrypt X blob s' = Decrypt_envelope X (b64_Encode [] @ CHR ''#'' # encrypted) s'"
    by (simp add: b Decrypt_def)
  also have "\<dots> = (decrypt X encrypted (SecretKey s'), s')"
    unfolding Decrypt_envelope_of_Encode by (simp add: dataKey_def)
  finally show ?thesis
    by (simp add: b s' dataKey_def)
qed

theorem Encrypt_static_secret_witness:
  "defaultEncryptionKey zero_process = [] \<and>
   fst (Encrypt toy ''hi'' zero_process) = Inr ''##SW2YcwTIb9zpOOhoPsMmhi'' \<and>
   take 2 ''##SW2YcwTIb9zpOOhoPsMmhi'' = ''##'' \<and>
   calls (snd (Decrypt toy ''##SW2YcwTIb9zpOOhoPsMmhi''
     (snd (Encrypt toy ''hi'' zero_process)))) = [] \<and>
   fst (Decrypt toy ''##SW2YcwTIb9zpOOhoPsMmhi'' (snd (Encrypt toy ''hi'' zero_process))) =
     Inr ''hi''"
proof -
  have k: "defaultEncryptionKey zero_process = []"
    by (simp add: zero_process_def)
  have f: "fst (Encrypt toy ''hi'' zero_process) = Inr ''##SW2YcwTIb9zpOOhoPsMmhi''"
    by (simp add: Encrypt_unfold zero_process_def dataKey_def toy_def toy_encrypt_def)
  then have e: "Encrypt toy ''hi'' zero_process =
      (Inr ''##SW2YcwTIb9zpOOhoPsMmhi'', snd (Encrypt toy ''hi'' zero_process))"
    by (simp add: prod_eq_iff)
  note w = Encrypt_static_secret [OF k e]
  from w have s: "snd (Encrypt toy ''hi'' zero_process) = zero_process"
    by (elim conjE)
  from w have "Decrypt toy ''##SW2YcwTIb9zpOOhoPsMmhi'' (snd (Encrypt toy ''hi'' zero_process)) =
      (decrypt toy (drop 2 ''##SW2YcwTIb9zpOOhoPsMmhi'')
         (SecretKey (snd (Encrypt toy ''hi'' zero_process))),
       snd (Encrypt toy ''hi'' zero_process))"
    by (elim conjE)
  then have r: "Decrypt toy ''##SW2YcwTIb9zpOOhoPsMmhi'' (snd (Encrypt toy ''hi'' zero_process)) =
      (Inr ''hi'', zero_process)"
    unfolding s by (simp add: toy_def toy_decrypt_def zero_process_def)
  have c: "calls zero_process = []"
    by (simp add: zero_process_def)
  show ?thesis
    using k f by (simp add: r c)
qed

text \<open>
  C6.  For a non-empty key name whose record, as the store returns it, names a provider
  that is not registered, \<open>dataKey\<close> fails with the error for the missing provider
  after one lookup in the store, and the cache is after the call what it was before.
  The key has no cache entry: the methods write an entry only at the end of a fetch that
  has found the provider of the key's record, and they never allocate the map, which is
  \<open>nil\<close> in every process \<open>Init\<close> has set up.
\<close>

theorem dataKey_provider_not_found:
  assumes "key \<noteq> []"
    and "map_index (dataKeyCache s) key = None"
    and "GetDataKey (store s) key = Inr dk"
    and "providers s (Provider dk) = None"
  shows "dataKey X key s =
           (Inl (ErrNoProvider (Provider dk)), s\<lparr>calls := calls s @ [GetDataKeyCall key]\<rparr>) \<and>
         dataKeyCache (snd (dataKey X key s)) = dataKeyCache s"
proof -
  have "dataKey X key s = dataKey_fetch X key s"
    using assms(1,2) by (rule dataKey_absent)
  also have "\<dots> =
      (Inl (ErrNoProvider (Provider dk)), s\<lparr>calls := calls s @ [GetDataKeyCall key]\<rparr>)"
    using assms(3,4) by (rule dataKey_fetch_no_provider)
  finally show ?thesis
    by simp
qed

theorem dataKey_provider_not_found_witness:
  "dataKeyCache vault_process = nil_map \<and>
   fst (dataKey toy ''k1'' vault_process) = Inl (ErrNoProvider ''vault'') \<and>
   dataKeyCache (snd (dataKey toy ''k1'' vault_process)) = dataKeyCache vault_process \<and>
   calls (snd (dataKey toy ''k1'' vault_process)) =
     calls vault_process @ [GetDataKeyCall ''k1'']"
proof -
  let ?dk = "\<lparr>Active = True, Name = ''k1'', Provider = ''vault'', EncryptedData = ''yek-atad''\<rparr>"
  have 1: "''k1'' \<noteq> []"
    by simp
  have 2: "map_index (dataKeyCache vault_process) ''k1'' = None"
    by (simp add: vault_process_value(1))
  note 3 = vault_process_value(3)
  have 4: "providers vault_process (Provider ?dk) = None"
    by (simp add: vault_process_value(2))
  from dataKey_provider_not_found [OF 1 2 3 4, of toy] show ?thesis
    by (simp add: vault_process_value(1))
qed

text \<open>
  C7.  Two calls of \<open>dataKey\<close> for a key whose record is in the store and whose
  provider is registered should make one lookup and one provider decryption between
  them, the second call being answered by the cache.  In the process \<open>Init\<close> sets up
  the cache map is \<open>nil\<close>: the first call looks the record up, has the provider
  decrypt it, and panics when it assigns the cache entry; nothing is cached, and a second
  call, made at the same clock reading, looks the record up and has it decrypted again
  and panics again.  The log then holds two lookups and two decryptions of \<open>k1\<close>.
\<close>

theorem dataKey_nil_cache_refetches:
  "dataKeyCache sealed_process = nil_map \<and>
   dataKey toy ''k1'' sealed_process =
     (Inl (Panic ''assignment to entry in nil map''),
      sealed_process\<lparr>calls := calls sealed_process @
        [GetDataKeyCall ''k1'', ProviderDecryptCall [] ''SW2YcwTIb9zpOOhoPsMmdata-key'']\<rparr>) \<and>
   dataKey toy ''k1'' (snd (dataKey toy ''k1'' sealed_process)) =
     (Inl (Panic ''assignment to entry in nil map''),
      sealed_process\<lparr>calls := calls sealed_process @
        [GetDataKeyCall ''k1'', ProviderDecryptCall [] ''SW2YcwTIb9zpOOhoPsMmdata-key'',
         GetDataKeyCall ''k1'', ProviderDecryptCall [] ''SW2YcwTIb9zpOOhoPsMmdata-key'']\<rparr>)"
proof -
  let ?dk = "\<lparr>Active = True, Name = ''k1'', Provider = [],
               EncryptedData = ''SW2YcwTIb9zpOOhoPsMmdata-key''\<rparr>"
  let ?s1 = "sealed_process\<lparr>calls := calls sealed_process @
        [GetDataKeyCall ''k1'', ProviderDecryptCall [] ''SW2YcwTIb9zpOOhoPsMmdata-key'']\<rparr>"
  have d: "provider_Decrypt toy ''SW2YcwTIb9zpOOhoPsMm'' secretKey (EncryptedData ?dk) =
      Inr ''data-key''"
    by (simp add: toy_def toy_decrypt_def)
  have a: "dataKey toy ''k1'' sealed_process =
      (Inl (Panic ''assignment to entry in nil map''), ?s1)"
    using dataKey_nil_cache_panics [of "''k1''" sealed_process ?dk secretKey toy "''data-key''"] d
    by (simp add: sealed_process_value)
  have b: "dataKey toy ''k1'' ?s1 =
      (Inl (Panic ''assignment to entry in nil map''),
       ?s1\<lparr>calls := calls ?s1 @
        [GetDataKeyCall ''k1'', ProviderDecryptCall [] ''SW2YcwTIb9zpOOhoPsMmdata-key'']\<rparr>)"
    using dataKey_nil_cache_panics [of "''k1''" ?s1 ?dk secretKey toy "''data-key''"] d
    by (simp add: sealed_process_value)
  show ?thesis
    by (simp add: a b sealed_process_value(1))
qed

text \<open>
  C8.  On a store that serves its calls and has no record \<open>root\<close>, an \<open>Init\<close>
  that returns \<open>nil\<close> has inserted exactly one record, named \<open>root\<close>; a second
  \<open>Init\<close> then returns \<open>nil\<close> after a single lookup, without an insert and with the
  store as it was.  And whenever the lookup fails with an error that is not (and does not
  wrap) \<open>ErrDataKeyNotFound\<close>, \<open>Init\<close> returns that error after the lookup alone.
\<close>

theorem Init_twice:
  "(getFault (store s) ''root'' = None \<and> (\<forall>dk. createFault (store s) dk = None) \<and>
    dataKeys (store s) ''root'' = None \<and> Init X s = (None, s1) \<longrightarrow>
      (\<exists>dk cs. Name dk = ''root'' \<and>
         dataKeys (store s1) = (dataKeys (store s))(''root'' \<mapsto> dk) \<and>
         calls s1 = calls s @ cs \<and> filter is_store_write cs = [CreateDataKeyCall dk]) \<and>
      (\<exists>s2. Init X s1 = (None, s2) \<and> store s2 = store s1 \<and>
         calls s2 = calls s1 @ [GetDataKeyCall ''root''])) \<and>
   (GetDataKey (store s) ''root'' = Inl err \<and> \<not> errors_Is err ErrDataKeyNotFound \<longrightarrow>
      fst (Init X s) = Some err \<and> store (snd (Init X s)) = store s \<and>
      calls (snd (Init X s)) = calls s @ [GetDataKeyCall ''root''])"
proof (intro conjI impI)
  assume a: "getFault (store s) ''root'' = None \<and> (\<forall>dk. createFault (store s) dk = None) \<and>
    dataKeys (store s) ''root'' = None \<and> Init X s = (None, s1)"
  then obtain dk cs where
    n: "Name dk = ''root''" and
    st: "store s1 = (store s)\<lparr>dataKeys := (dataKeys (store s))(''root'' \<mapsto> dk)\<rparr>" and
    c: "calls s1 = calls s @ cs" "filter is_store_write cs = [CreateDataKeyCall dk]"
    by (elim conjE Init_fresh)
  from n st c
  show "\<exists>dk cs. Name dk = ''root'' \<and>
         dataKeys (store s1) = (dataKeys (store s))(''root'' \<mapsto> dk) \<and>
         calls s1 = calls s @ cs \<and> filter is_store_write cs = [CreateDataKeyCall dk]"
    by (intro exI [of _ dk] exI [of _ cs]) simp
  have "GetDataKey (store s1) ''root'' = Inr dk"
    using a by (simp add: st GetDataKey_def)
  then have "Init X s1 =
    (None, s1\<lparr>providers := [[] \<mapsto> secretKey],
             calls := calls s1 @ [GetDataKeyCall ''root''], util_hooked := True\<rparr>)"
    by (rule Init_existing)
  then show "\<exists>s2. Init X s1 = (None, s2) \<and> store s2 = store s1 \<and>
         calls s2 = calls s1 @ [GetDataKeyCall ''root'']"
    by simp
next
  assume "GetDataKey (store s) ''root'' = Inl err \<and> \<not> errors_Is err ErrDataKeyNotFound"
  then have i: "Init X s =
    (Some err, s\<lparr>providers := [[] \<mapsto> secretKey],
                 calls := calls s @ [GetDataKeyCall ''root'']\<rparr>)"
    by (intro Init_lookup_failure) simp_all
  show "fst (Init X s) = Some err" "store (snd (Init X s)) = store s"
    "calls (snd (Init X s)) = calls s @ [GetDataKeyCall ''root'']"
    by (simp_all add: i)
qed

theorem Init_twice_witness:
  "fst (Init toy zero_process) = None \<and>
   calls (snd (Init toy zero_process)) =
     [GetDataKeyCall ''root'',
      CreateDataKeyCall \<lparr>Active = True, Name = ''root'', Provider = [],
        EncryptedData = ''##SW2YcwTIb9zpOOhoPsMmrrrrrrrrrrrrrrrr''\<rparr>] \<and>
   fst (Init toy (snd (Init toy zero_process))) = None \<and>
   calls (snd (Init toy (snd (Init toy zero_process)))) =
     [GetDataKeyCall ''root'',
      CreateDataKeyCall \<lparr>Active = True, Name = ''root'', Provider = [],
        EncryptedData = ''##SW2YcwTIb9zpOOhoPsMmrrrrrrrrrrrrrrrr''\<rparr>,
      GetDataKeyCall ''root''] \<and>
   fst (Init toy (zero_process\<lparr>store := down_store\<rparr>)) =
     Some (External ''context deadline exceeded'') \<and>
   calls (snd (Init toy (zero_process\<lparr>store := down_store\<rparr>))) = [GetDataKeyCall ''root'']"
proof -
  let ?s1 = "snd (Init toy zero_process)"
  have f: "fst (Init toy zero_process) = None"
    and c: "calls ?s1 =
     [GetDataKeyCall ''root'',
      CreateDataKeyCall \<lparr>Active = True, Name = ''root'', Provider = [],
        EncryptedData = ''##SW2YcwTIb9zpOOhoPsMmrrrrrrrrrrrrrrrr''\<rparr>]"
    by (simp_all add: Init_def newRandomDataKey_def Encrypt_unfold dataKey_def CreateDataKey_def
      GetDataKey_def Let_def copy_def make_bytes_def
      zero_process_def empty_store_def toy_def toy_encrypt_def toy_random_bytes)
  from f have i: "Init toy zero_process = (None, ?s1)"
    by (simp add: prod_eq_iff)
  have h: "getFault (store zero_process) ''root'' = None \<and>
      (\<forall>dk. createFault (store zero_process) dk = None) \<and>
      dataKeys (store zero_process) ''root'' = None \<and> Init toy zero_process = (None, ?s1)"
    using i by (simp add: zero_process_def empty_store_def)
  from Init_twice [of zero_process toy ?s1 ErrNoKeyInPayload] h
  have "\<exists>s2. Init toy ?s1 = (None, s2) \<and> store s2 = store ?s1 \<and>
         calls s2 = calls ?s1 @ [GetDataKeyCall ''root'']"
    by blast
  then have second: "fst (Init toy ?s1) = None"
    "calls (snd (Init toy ?s1)) = calls ?s1 @ [GetDataKeyCall ''root'']"
    by auto
  have g: "GetDataKey (store (zero_process\<lparr>store := down_store\<rparr>)) ''root'' =
        Inl (External ''context deadline exceeded'') \<and>
      \<not> errors_Is (External ''context deadline exceeded'') ErrDataKeyNotFound"
    by (simp add: GetDataKey_def down_store_def empty_store_def)
  from Init_twice [of "zero_process\<lparr>store := down_store\<rparr>" toy ?s1
      "External ''context deadline exceeded''"] g
  have third: "fst (Init toy (zero_process\<lparr>store := down_store\<rparr>)) =
      Some (External ''context deadline exceeded'')"
    "calls (snd (Init toy (zero_process\<lparr>store := down_store\<rparr>))) =
      calls (zero_process\<lparr>store := down_store\<rparr>) @ [GetDataKeyCall ''root'']"
    by blast+
  show ?thesis
    using f c second third by (simp add: zero_process_def)
qed

text \<open>
  C9.  A blob that a successful \<open>Encrypt\<close> returns is not empty and its first byte is
  \<open>#\<close>, so \<open>Decrypt\<close> of it, with any cipher and in any process, is the branch for
  enveloped payloads, neither the return for the empty payload nor the branch for
  payloads without an envelope.
\<close>

theorem Encrypt_blob_envelope:
  assumes "Encrypt X p s = (Inr blob, s')"
  shows "blob \<noteq> [] \<and> blob ! 0 = CHR ''#'' \<and>
         (\<forall>Y t. Decrypt Y blob t = Decrypt_envelope Y (drop 1 blob) t)"
proof -
  from assms obtain encrypted where
    "blob = CHR ''#'' # b64_Encode (defaultEncryptionKey s) @ CHR ''#'' # encrypted"
    by (rule Encrypt_InrD)
  then show ?thesis
    by (simp add: Decrypt_def)
qed

theorem Encrypt_blob_envelope_witness:
  "fst (Encrypt toy [] zero_process) = Inr ''##SW2YcwTIb9zpOOhoPsMm'' \<and>
   ''##SW2YcwTIb9zpOOhoPsMm'' \<noteq> [] \<and> ''##SW2YcwTIb9zpOOhoPsMm'' ! 0 = CHR ''#'' \<and>
   Decrypt toy ''##SW2YcwTIb9zpOOhoPsMm'' zero_process =
     Decrypt_envelope toy (drop 1 ''##SW2YcwTIb9zpOOhoPsMm'') zero_process"
proof -
  have f: "fst (Encrypt toy [] zero_process) = Inr ''##SW2YcwTIb9zpOOhoPsMm''"
    by code_simp
  then have e: "Encrypt toy [] zero_process =
      (Inr ''##SW2YcwTIb9zpOOhoPsMm'', snd (Encrypt toy [] zero_process))"
    by (simp add: prod_eq_iff)
  show ?thesis
    using Encrypt_blob_envelope [OF e] f by simp
qed

text \<open>
  C10.  \<open>dataKey\<close>, \<open>Decrypt\<close> and \<open>Encrypt\<close> leave the store as it is, and none of
  the calls they add to the log is an insert: \<open>CreateDataKey\<close> is called by
  \<open>newRandomDataKey\<close> alone, which only \<open>Init\<close> calls.
\<close>

theorem store_never_written:
  "store (snd (dataKey X key s)) = store s \<and>
   (\<exists>cs. calls (snd (dataKey X key s)) = calls s @ cs \<and> filter is_store_write cs = []) \<and>
   store (snd (Decrypt X blob s)) = store s \<and>
   (\<exists>cs. calls (snd (Decrypt X blob s)) = calls s @ cs \<and> filter is_store_write cs = []) \<and>
   store (snd (Encrypt X payload s)) = store s \<and>
   (\<exists>cs. calls (snd (Encrypt X payload s)) = calls s @ cs \<and> filter is_store_write cs = [])"
proof -
  have d: "store (snd (Decrypt X blob s)) = store s"
    using Decrypt_snd [of X blob s] by (auto simp: dataKey_store)
  have dc: "\<exists>cs. calls (snd (Decrypt X blob s)) = calls s @ cs \<and> filter is_store_write cs = []"
    using Decrypt_snd [of X blob s] dataKey_writes by auto
  show ?thesis
    using d dc by (simp add: Encrypt_snd dataKey_store dataKey_writes)
qed

theorem store_never_written_witness:
  "store (snd (dataKey toy ''k1'' keyed_process)) = store keyed_process \<and>
   calls (snd (dataKey toy ''k1'' keyed_process)) =
     [GetDataKeyCall ''k1'', ProviderDecryptCall ''kms'' ''yek-atad''] \<and>
   store (snd (Decrypt toy ''#azE#data-keyhi'' keyed_process)) = store keyed_process \<and>
   store (snd (Encrypt toy ''hi'' keyed_process)) = store keyed_process"
  using store_never_written [of toy "''k1''" keyed_process "''#azE#data-keyhi''" "''hi''"]
  by (simp add: warm_process_value(1)) (simp add: warm_process_value(2))

end
